theory Spec2Isabelle
  imports Complex_Main
begin

section \<open>Slot simulator: data model\<close>

text \<open>
  The Monte Carlo template \<^verbatim>\<open>templates/math_simulation.py\<close> keeps its game description in
  module-level constants that are filled in per game. They are gathered in one record
  that every function takes as its first argument. Python floats are modelled as exact
  reals, Python dictionaries as association lists in insertion order (looked up with
  \<open>map_of\<close>), symbols as strings.
\<close>

type_synonym symbol = string
type_synonym grid = "symbol list list"

datatype error = IndexError | KeyError | ValueError | ZeroDivisionError | OutOfDraws

record config =
  NUM_REELS :: nat
  NUM_ROWS :: nat
  REEL_STRIPS :: "(nat \<times> symbol list) list"
  PAYTABLE :: "(symbol \<times> (nat \<times> real) list) list"
  WILD_SYMBOL :: symbol
  SCATTER_SYMBOL :: symbol
  FREE_SPIN_TRIGGER :: "(nat \<times> nat) list"
  FREE_SPIN_MULTIPLIER :: real
  FREE_SPIN_RETRIGGER :: bool

text \<open>The constants of the template as it is shipped.\<close>

definition default_config :: config where
  "default_config = \<lparr>
     NUM_REELS = 5,
     NUM_ROWS = 3,
     REEL_STRIPS = [
       (0, [''H1'', ''L1'', ''L2'', ''H2'', ''L3'', ''L4'', ''L1'', ''H3'',
            ''L2'', ''L3'', ''L4'', ''H4'', ''L1'', ''L2'', ''L3'', ''SC'',
            ''L4'', ''H1'', ''L1'', ''L2'', ''WD'', ''L3'', ''L4'', ''H2'',
            ''L1'', ''L2'', ''H5'', ''L3'', ''L4'', ''L1'', ''L2'', ''L3'']),
       (1, [''L1'', ''H2'', ''L2'', ''L3'', ''L4'', ''H1'', ''L1'', ''L2'',
            ''H3'', ''L3'', ''L4'', ''L1'', ''SC'', ''L2'', ''L3'', ''H4'',
            ''L4'', ''L1'', ''L2'', ''WD'', ''L3'', ''H5'', ''L4'', ''L1'',
            ''L2'', ''L3'', ''H2'', ''L4'', ''L1'', ''L2'', ''L3'', ''L4'']),
       (2, [''H1'', ''L2'', ''L3'', ''L4'', ''L1'', ''H3'', ''L2'', ''SC'',
            ''L3'', ''L4'', ''H2'', ''L1'', ''L2'', ''L3'', ''WD'', ''L4'',
            ''H4'', ''L1'', ''L2'', ''L3'', ''L4'', ''H5'', ''L1'', ''L2'',
            ''L3'', ''L4'', ''L1'', ''H1'', ''L2'', ''L3'', ''L4'', ''L1'']),
       (3, [''L1'', ''L2'', ''H2'', ''L3'', ''L4'', ''L1'', ''H1'', ''L2'',
            ''L3'', ''H4'', ''L4'', ''L1'', ''L2'', ''SC'', ''L3'', ''L4'',
            ''H3'', ''L1'', ''L2'', ''L3'', ''WD'', ''L4'', ''H5'', ''L1'',
            ''L2'', ''L3'', ''L4'', ''L1'', ''L2'', ''H2'', ''L3'', ''L4'']),
       (4, [''L2'', ''L3'', ''H1'', ''L4'', ''L1'', ''L2'', ''H3'', ''L3'',
            ''L4'', ''L1'', ''H2'', ''L2'', ''L3'', ''L4'', ''SC'', ''L1'',
            ''H4'', ''L2'', ''L3'', ''L4'', ''H5'', ''L1'', ''WD'', ''L2'',
            ''L3'', ''L4'', ''L1'', ''L2'', ''L3'', ''H1'', ''L4'', ''L1''])],
     PAYTABLE = [
       (''H1'', [(3, 2), (4, 8), (5, 40)]),
       (''H2'', [(3, 3/2), (4, 5), (5, 25)]),
       (''H3'', [(3, 1), (4, 4), (5, 20)]),
       (''H4'', [(3, 4/5), (4, 3), (5, 15)]),
       (''H5'', [(3, 3/5), (4, 5/2), (5, 10)]),
       (''L1'', [(3, 2/5), (4, 3/2), (5, 5)]),
       (''L2'', [(3, 3/10), (4, 1), (5, 4)]),
       (''L3'', [(3, 1/4), (4, 4/5), (5, 3)]),
       (''L4'', [(3, 1/5), (4, 3/5), (5, 2)]),
       (''WD'', []),
       (''SC'', [])],
     WILD_SYMBOL = ''WD'',
     SCATTER_SYMBOL = ''SC'',
     FREE_SPIN_TRIGGER = [(3, 10), (4, 15), (5, 25)],
     FREE_SPIN_MULTIPLIER = 3,
     FREE_SPIN_RETRIGGER = True \<rparr>"

section \<open>WinEvaluator: \<^verbatim>\<open>evaluate_ways_win\<close>\<close>

text \<open>
  \<^verbatim>\<open>PAYTABLE[symbol]\<close> for a key of the table. The loops below only look up symbols they
  took from the keys, so the \<open>None\<close> branch is never reached there.
\<close>

definition paytable_of :: "config \<Rightarrow> symbol \<Rightarrow> (nat \<times> real) list" where
  "paytable_of cfg s = (case map_of (PAYTABLE cfg) s of Some pays \<Rightarrow> pays | None \<Rightarrow> [])"

text \<open>
  \<^verbatim>\<open>[s for s in PAYTABLE if s not in (WILD_SYMBOL, SCATTER_SYMBOL) and PAYTABLE[s]]\<close>:
  the keys in insertion order, without wild and scatter, and without the symbols whose
  pay dictionary is empty.
\<close>

definition paying_symbols :: "config \<Rightarrow> symbol list" where
  "paying_symbols cfg =
     filter (\<lambda>s. s \<notin> {WILD_SYMBOL cfg, SCATTER_SYMBOL cfg} \<and> paytable_of cfg s \<noteq> [])
            (map fst (PAYTABLE cfg))"

text \<open>
  The inner \<^verbatim>\<open>sum(1 for row in range(NUM_ROWS) if grid[reel_idx][row] == symbol or ...)\<close>.
  Every row index is read, so the sum raises \<^verbatim>\<open>IndexError\<close> as soon as one row is
  looked up in a grid that has no such reel or in a column that is too short; with no
  rows nothing is read.
\<close>

definition reel_count :: "config \<Rightarrow> grid \<Rightarrow> symbol \<Rightarrow> nat \<Rightarrow> error + nat" where
  "reel_count cfg grid symbol reel_idx =
     (if NUM_ROWS cfg = 0 then Inr 0
      else if length grid \<le> reel_idx then Inl IndexError
      else if length (grid ! reel_idx) < NUM_ROWS cfg then Inl IndexError
      else Inr (length (filter
             (\<lambda>row. grid ! reel_idx ! row = symbol \<or> grid ! reel_idx ! row = WILD_SYMBOL cfg)
             [0..<NUM_ROWS cfg])))"

text \<open>
  The loop \<^verbatim>\<open>for reel_idx in range(NUM_REELS)\<close> with its \<^verbatim>\<open>break\<close>; the state is
  \<^verbatim>\<open>(counts_per_reel, consecutive_reels)\<close>.
\<close>

fun count_reels ::
  "config \<Rightarrow> grid \<Rightarrow> symbol \<Rightarrow> nat list \<Rightarrow> nat list \<times> nat \<Rightarrow> error + (nat list \<times> nat)" where
  "count_reels cfg grid symbol [] st = Inr st"
| "count_reels cfg grid symbol (reel_idx # rest) (counts_per_reel, consecutive_reels) =
     (case reel_count cfg grid symbol reel_idx of
        Inl e \<Rightarrow> Inl e
      | Inr count \<Rightarrow>
          if count > 0
          then count_reels cfg grid symbol rest
                 (counts_per_reel @ [count], consecutive_reels + 1)
          else Inr (counts_per_reel, consecutive_reels))"

text \<open>\<^verbatim>\<open>ways = 1; for i in range(length): ways *= counts_per_reel[i]\<close>\<close>

definition ways :: "nat list \<Rightarrow> nat \<Rightarrow> nat" where
  "ways counts_per_reel len = fold (\<lambda>i w. w * counts_per_reel ! i) [0..<len] 1"

text \<open>
  The loop \<^verbatim>\<open>for length in range(consecutive_reels, 2, -1)\<close>: the first length found in
  the symbol's pay dictionary pays and ends the loop.
\<close>

fun pay_longest :: "(nat \<times> real) list \<Rightarrow> nat list \<Rightarrow> nat list \<Rightarrow> real \<Rightarrow> real" where
  "pay_longest pays counts_per_reel [] total_win = total_win"
| "pay_longest pays counts_per_reel (len # rest) total_win =
     (case map_of pays len of
        Some mult \<Rightarrow> total_win + mult * real (ways counts_per_reel len)
      | None \<Rightarrow> pay_longest pays counts_per_reel rest total_win)"

text \<open>The loop \<^verbatim>\<open>for symbol in paying_symbols\<close>, threading \<^verbatim>\<open>total_win\<close>.\<close>

fun eval_symbols :: "config \<Rightarrow> grid \<Rightarrow> symbol list \<Rightarrow> real \<Rightarrow> error + real" where
  "eval_symbols cfg grid [] total_win = Inr total_win"
| "eval_symbols cfg grid (symbol # rest) total_win =
     (case count_reels cfg grid symbol [0..<NUM_REELS cfg] ([], 0) of
        Inl e \<Rightarrow> Inl e
      | Inr (counts_per_reel, consecutive_reels) \<Rightarrow>
          if consecutive_reels < 3 then eval_symbols cfg grid rest total_win
          else eval_symbols cfg grid rest
                 (pay_longest (paytable_of cfg symbol) counts_per_reel
                    (rev [3..<Suc consecutive_reels]) total_win))"

definition evaluate_ways_win :: "config \<Rightarrow> grid \<Rightarrow> error + real" where
  "evaluate_ways_win cfg grid = eval_symbols cfg grid (paying_symbols cfg) 0"

text \<open>A grid of the configured shape: one column per reel, one cell per row.\<close>

definition grid_shape :: "config \<Rightarrow> grid \<Rightarrow> bool" where
  "grid_shape cfg grid \<longleftrightarrow>
     length grid = NUM_REELS cfg \<and> list_all (\<lambda>col. length col = NUM_ROWS cfg) grid"

subsection \<open>The evaluator as the specification words it\<close>

text \<open>
  Written from the specification's sentence, to be compared with the loops above:
  per-reel counts of cells equal to the symbol or the wild, the run of reels with a
  match counted from the first reel, the longest paytable length between 3 and the run,
  and the product of the counts over that many reels.
\<close>

definition spec_reel_matches :: "config \<Rightarrow> grid \<Rightarrow> symbol \<Rightarrow> nat \<Rightarrow> nat" where
  "spec_reel_matches cfg grid s r =
     length (filter (\<lambda>c. c = s \<or> c = WILD_SYMBOL cfg) (grid ! r))"

definition spec_run :: "config \<Rightarrow> grid \<Rightarrow> symbol \<Rightarrow> nat" where
  "spec_run cfg grid s =
     length (takeWhile (\<lambda>n. 0 < n) (map (spec_reel_matches cfg grid s) [0..<NUM_REELS cfg]))"

definition spec_lengths :: "config \<Rightarrow> grid \<Rightarrow> symbol \<Rightarrow> nat set" where
  "spec_lengths cfg grid s =
     Set.filter (\<lambda>L. map_of (paytable_of cfg s) L \<noteq> None) {3..spec_run cfg grid s}"

definition spec_symbol_payout :: "config \<Rightarrow> grid \<Rightarrow> symbol \<Rightarrow> real" where
  "spec_symbol_payout cfg grid s =
     (if spec_run cfg grid s < 3 \<or> spec_lengths cfg grid s = {} then 0
      else the (map_of (paytable_of cfg s) (Max (spec_lengths cfg grid s)))
           * real (\<Prod>r<Max (spec_lengths cfg grid s). spec_reel_matches cfg grid s r))"

definition spec_total_payout :: "config \<Rightarrow> grid \<Rightarrow> real" where
  "spec_total_payout cfg grid =
     sum_list (map (spec_symbol_payout cfg grid)
       (filter (\<lambda>s. s \<noteq> WILD_SYMBOL cfg \<and> s \<noteq> SCATTER_SYMBOL cfg) (map fst (PAYTABLE cfg))))"

section \<open>SpinEngine and FeatureEngine\<close>

text \<open>
  The generator is the one source of nondeterminism. A run is modelled on the values it
  delivers: one \<open>draw\<close> per call of \<^verbatim>\<open>spin_reels\<close>, giving for each reel the value the
  generator hands to \<^verbatim>\<open>np.random.randint(0, num_stops)\<close>; the list of draws still to
  come is the generator's state. A run that asks for a draw when the list is empty
  stops with \<open>OutOfDraws\<close>: the list bounds how long the model runs, it is not a
  Python error.
\<close>

type_synonym draw = "nat \<Rightarrow> nat"
type_synonym rng = "draw list"

text \<open>\<^verbatim>\<open>np.random.randint(0, high)\<close> raises \<^verbatim>\<open>ValueError\<close> when \<^verbatim>\<open>high\<close> is 0.\<close>

definition randint :: "nat \<Rightarrow> nat \<Rightarrow> error + nat" where
  "randint high v = (if high = 0 then Inl ValueError else Inr (v mod high))"

fun spin_reels_loop :: "config \<Rightarrow> draw \<Rightarrow> nat list \<Rightarrow> grid \<Rightarrow> error + grid" where
  "spin_reels_loop cfg d [] grid = Inr grid"
| "spin_reels_loop cfg d (reel_idx # rest) grid =
     (case map_of (REEL_STRIPS cfg) reel_idx of
        None \<Rightarrow> Inl KeyError
      | Some strip \<Rightarrow>
          (case randint (length strip) (d reel_idx) of
             Inl e \<Rightarrow> Inl e
           | Inr start_pos \<Rightarrow>
               spin_reels_loop cfg d rest
                 (grid @ [map (\<lambda>row. strip ! ((start_pos + row) mod length strip))
                              [0..<NUM_ROWS cfg]])))"

definition spin_reels :: "config \<Rightarrow> draw \<Rightarrow> error + grid" where
  "spin_reels cfg d = spin_reels_loop cfg d [0..<NUM_REELS cfg] []"

definition count_scatters :: "config \<Rightarrow> grid \<Rightarrow> nat" where
  "count_scatters cfg grid = length (filter (\<lambda>symbol. symbol = SCATTER_SYMBOL cfg) (concat grid))"

text \<open>
  One turn of the \<^verbatim>\<open>while remaining > 0\<close> loop of \<^verbatim>\<open>run_free_spins\<close> on the grid it
  drew; the state is \<^verbatim>\<open>(total_win, remaining)\<close>.
\<close>

definition free_spin_body :: "config \<Rightarrow> grid \<Rightarrow> real \<times> nat \<Rightarrow> error + (real \<times> nat)" where
  "free_spin_body cfg grid st =
     (case evaluate_ways_win cfg grid of
        Inl e \<Rightarrow> Inl e
      | Inr w \<Rightarrow>
          let win = w * FREE_SPIN_MULTIPLIER cfg;
              total_win = fst st + win;
              remaining = snd st - 1;
              sc_count = count_scatters cfg grid
          in if FREE_SPIN_RETRIGGER cfg \<and> sc_count \<ge> 3
             then (case map_of (FREE_SPIN_TRIGGER cfg) sc_count of
                     Some n \<Rightarrow> Inr (total_win, remaining + n)
                   | None \<Rightarrow> Inr (total_win, remaining))
             else Inr (total_win, remaining))"

fun run_free_spins_loop :: "config \<Rightarrow> real \<times> nat \<Rightarrow> rng \<Rightarrow> error + (real \<times> rng)" where
  "run_free_spins_loop cfg (total_win, remaining) [] =
     (if remaining > 0 then Inl OutOfDraws else Inr (total_win, []))"
| "run_free_spins_loop cfg (total_win, remaining) (d # rng) =
     (if remaining > 0
      then (case spin_reels cfg d of
              Inl e \<Rightarrow> Inl e
            | Inr grid \<Rightarrow>
                (case free_spin_body cfg grid (total_win, remaining) of
                   Inl e \<Rightarrow> Inl e
                 | Inr st \<Rightarrow> run_free_spins_loop cfg st rng))
      else Inr (total_win, d # rng))"

definition run_free_spins :: "config \<Rightarrow> nat \<Rightarrow> rng \<Rightarrow> error + (real \<times> rng)" where
  "run_free_spins cfg num_spins rng = run_free_spins_loop cfg (0, num_spins) rng"

fun categorize_win :: "real \<Rightarrow> string" where
  "categorize_win win_amount =
     (if win_amount = 0 then ''0x''
      else if win_amount < 1 then ''0-1x''
      else if win_amount < 2 then ''1-2x''
      else if win_amount < 5 then ''2-5x''
      else if win_amount < 20 then ''5-20x''
      else if win_amount < 100 then ''20-100x''
      else if win_amount < 1000 then ''100-1000x''
      else ''1000x+'')"

section \<open>StatisticsAggregator: \<^verbatim>\<open>run_simulation\<close>\<close>

record SimulationStats =
  total_spins :: nat
  total_wagered :: real
  total_won :: real
  base_game_won :: real
  feature_won :: real
  wins :: nat
  free_spin_triggers :: nat
  free_spins_played :: nat
  max_win :: real
  win_distribution :: "string \<Rightarrow> nat"

definition new_stats :: SimulationStats where
  "new_stats = \<lparr> total_spins = 0, total_wagered = 0, total_won = 0, base_game_won = 0,
     feature_won = 0, wins = 0, free_spin_triggers = 0, free_spins_played = 0, max_win = 0,
     win_distribution = (\<lambda>_. 0) \<rparr>"

definition bet_per_spin :: real where
  "bet_per_spin = 1"

text \<open>
  The two statements that open the loop body,
  \<^verbatim>\<open>stats.total_spins += 1; stats.total_wagered += bet_per_spin\<close>.
\<close>

definition place_bet :: "SimulationStats \<Rightarrow> SimulationStats" where
  "place_bet stats =
     (let stats = stats\<lparr>total_spins := total_spins stats + 1\<rparr>
      in stats\<lparr>total_wagered := total_wagered stats + bet_per_spin\<rparr>)"

text \<open>
  The block under \<^verbatim>\<open># Check for free spins\<close>: it returns the statistics, the spin's
  total win and the generator state.
\<close>

definition check_free_spins ::
  "config \<Rightarrow> grid \<Rightarrow> SimulationStats \<Rightarrow> real \<Rightarrow> rng \<Rightarrow> error + (SimulationStats \<times> real \<times> rng)" where
  "check_free_spins cfg grid stats total_spin_win rng =
     (let scatter_count = count_scatters cfg grid
      in if scatter_count \<ge> 3
         then (case map_of (FREE_SPIN_TRIGGER cfg) scatter_count of
                 None \<Rightarrow> Inr (stats, total_spin_win, rng)
               | Some num_free_spins \<Rightarrow>
                   (let stats = stats\<lparr>free_spin_triggers := free_spin_triggers stats + 1\<rparr>;
                        stats = stats\<lparr>free_spins_played := free_spins_played stats + num_free_spins\<rparr>
                    in case run_free_spins cfg num_free_spins rng of
                         Inl e \<Rightarrow> Inl e
                       | Inr (feature_win, rng') \<Rightarrow>
                           Inr (stats\<lparr>feature_won := feature_won stats + feature_win\<rparr>,
                                total_spin_win + feature_win, rng')))
         else Inr (stats, total_spin_win, rng))"

text \<open>The block under \<^verbatim>\<open># Track stats\<close>.\<close>

definition track_stats :: "SimulationStats \<Rightarrow> real \<Rightarrow> SimulationStats" where
  "track_stats stats total_spin_win =
     (let stats = (if total_spin_win > 0 then stats\<lparr>wins := wins stats + 1\<rparr> else stats);
          stats = stats\<lparr>total_won := total_won stats + total_spin_win\<rparr>;
          stats = stats\<lparr>max_win := max (max_win stats) total_spin_win\<rparr>;
          bucket = categorize_win total_spin_win
      in stats\<lparr>win_distribution := (win_distribution stats)
                   (bucket := win_distribution stats bucket + 1)\<rparr>)"

text \<open>
  One turn of \<^verbatim>\<open>for i in range(num_spins)\<close>. The progress line printed every 250000
  spins goes to the error stream and changes nothing; it is left out.
\<close>

definition spin_step :: "config \<Rightarrow> SimulationStats \<Rightarrow> rng \<Rightarrow> error + (SimulationStats \<times> rng)" where
  "spin_step cfg stats rng =
     (let stats = place_bet stats
      in case rng of
           [] \<Rightarrow> Inl OutOfDraws
         | d # rng \<Rightarrow>
             (case spin_reels cfg d of
                Inl e \<Rightarrow> Inl e
              | Inr grid \<Rightarrow>
                  (case evaluate_ways_win cfg grid of
                     Inl e \<Rightarrow> Inl e
                   | Inr base_win \<Rightarrow>
                       (let stats = stats\<lparr>base_game_won := base_game_won stats + base_win\<rparr>
                        in case check_free_spins cfg grid stats base_win rng of
                             Inl e \<Rightarrow> Inl e
                           | Inr (stats, total_spin_win, rng') \<Rightarrow>
                               Inr (track_stats stats total_spin_win, rng')))))"

fun run_spins :: "config \<Rightarrow> nat \<Rightarrow> SimulationStats \<Rightarrow> rng \<Rightarrow> error + (SimulationStats \<times> rng)" where
  "run_spins cfg 0 stats rng = Inr (stats, rng)"
| "run_spins cfg (Suc n) stats rng =
     (case spin_step cfg stats rng of
        Inl e \<Rightarrow> Inl e
      | Inr (stats', rng') \<Rightarrow> run_spins cfg n stats' rng')"

text \<open>
  Python's \<^verbatim>\<open>/\<close> on floats raises \<^verbatim>\<open>ZeroDivisionError\<close> for a zero divisor;
  \<^verbatim>\<open>np.sqrt\<close> of a negative number is \<^verbatim>\<open>nan\<close> (here \<open>None\<close>), with a warning and
  no exception.
\<close>

definition py_div :: "real \<Rightarrow> real \<Rightarrow> error + real" where
  "py_div a b = (if b = 0 then Inl ZeroDivisionError else Inr (a / b))"

definition np_sqrt :: "real \<Rightarrow> real option" where
  "np_sqrt x = (if x < 0 then None else Some (sqrt x))"

text \<open>
  The metrics computed after the loop, before they are rounded for the report. A
  confidence interval of \<open>None\<close> stands for the pair \<^verbatim>\<open>(nan, nan)\<close> that arithmetic on
  \<^verbatim>\<open>nan\<close> produces, \<open>avg_spins_between_triggers = None\<close> for \<^verbatim>\<open>float("inf")\<close>.
  \<^verbatim>\<open>JURISDICTION_REQUIREMENTS\<close> is imported from the settings module and is a parameter
  here, each jurisdiction with its \<^verbatim>\<open>reqs.get("min_rtp", 0)\<close>. Only the first division
  by each divisor can raise; the later ones divide by a number already known not to be
  zero.
\<close>

record results =
  measured_rtp :: real
  rtp_confidence_interval_99 :: "(real \<times> real) option"
  hit_frequency_pct :: real
  base_game_rtp :: real
  feature_rtp :: real
  volatility_index :: real
  avg_spins_between_triggers :: "real option"
  win_dist_pct :: "string \<Rightarrow> real"
  jurisdiction_compliance :: "(string \<times> bool) list"
  summary_total_wagered :: real
  summary_free_spins_played :: nat

definition final_metrics :: "(string \<times> real) list \<Rightarrow> SimulationStats \<Rightarrow> error + results" where
  "final_metrics jurisdictions stats =
     (case py_div (total_won stats) (total_wagered stats) of
        Inl e \<Rightarrow> Inl e
      | Inr q \<Rightarrow>
     (let measured_rtp = q * 100 in
      case py_div (real (wins stats)) (real (total_spins stats)) of
        Inl e \<Rightarrow> Inl e
      | Inr h \<Rightarrow>
     (let hit_frequency = h * 100;
          base_rtp = base_game_won stats / total_wagered stats * 100;
          feature_rtp = feature_won stats / total_wagered stats * 100;
          avg_win = total_won stats / real (total_spins stats);
          variance_approx = (max_win stats - avg_win)\<^sup>2 / real (total_spins stats);
          volatility_index = (if variance_approx > 0 then sqrt variance_approx else 0);
          trigger_freq = (if free_spin_triggers stats > 0
                          then Some (real (total_spins stats) / real (free_spin_triggers stats))
                          else None);
          rtp_ci = (case np_sqrt (measured_rtp * (100 - measured_rtp) / real (total_spins stats)) of
                      None \<Rightarrow> None
                    | Some rtp_std \<Rightarrow>
                        (let ci_margin = 2.576 * rtp_std
                         in Some (measured_rtp - ci_margin, measured_rtp + ci_margin)))
      in Inr \<lparr> measured_rtp = measured_rtp,
               rtp_confidence_interval_99 = rtp_ci,
               hit_frequency_pct = hit_frequency,
               base_game_rtp = base_rtp,
               feature_rtp = feature_rtp,
               volatility_index = volatility_index,
               avg_spins_between_triggers = trigger_freq,
               win_dist_pct = (\<lambda>bucket. real (win_distribution stats bucket)
                                           / real (total_spins stats) * 100),
               jurisdiction_compliance =
                 map (\<lambda>(jurisdiction, min_rtp). (jurisdiction, measured_rtp \<ge> min_rtp)) jurisdictions,
               summary_total_wagered = total_wagered stats,
               summary_free_spins_played = free_spins_played stats \<rparr>)))"

definition run_simulation ::
  "config \<Rightarrow> (string \<times> real) list \<Rightarrow> nat \<Rightarrow> rng \<Rightarrow> error + results" where
  "run_simulation cfg jurisdictions num_spins rng =
     (case run_spins cfg num_spins new_stats rng of
        Inl e \<Rightarrow> Inl e
      | Inr (stats, rng') \<Rightarrow> final_metrics jurisdictions stats)"

section \<open>RTPOptimizer: the script of \<^verbatim>\<open>PaytableOptimizerTool\<close>\<close>

text \<open>
  The optimizer reads its paytable from JSON, so the pay dictionaries are keyed by
  strings and looked up with \<^verbatim>\<open>str(count)\<close>: the decimal numeral of the count.
\<close>

fun str_nat :: "nat \<Rightarrow> string" where
  "str_nat n =
     (if n < 10 then [char_of (48 + n)]
      else str_nat (n div 10) @ [char_of (48 + n mod 10)])"

declare str_nat.simps [simp del]

type_synonym json_paytable = "(symbol \<times> (string \<times> real) list) list"


text \<open>
  The window of \<^verbatim>\<open>simulate\<close>: \<^verbatim>\<open>reels[r]\<close> is a list lookup (\<^verbatim>\<open>IndexError\<close> past the
  end), the start is drawn as in \<^verbatim>\<open>spin_reels\<close>.
\<close>

fun draw_window :: "nat \<Rightarrow> symbol list list \<Rightarrow> draw \<Rightarrow> nat list \<Rightarrow> grid \<Rightarrow> error + grid" where
  "draw_window ROWS reels d [] window = Inr window"
| "draw_window ROWS reels d (r # rest) window =
     (if length reels \<le> r then Inl IndexError
      else (let reel = reels ! r
            in case randint (length reel) (d r) of
                 Inl e \<Rightarrow> Inl e
               | Inr pos \<Rightarrow>
                   draw_window ROWS reels d rest
                     (window @ [map (\<lambda>row. reel ! ((pos + row) mod length reel)) [0..<ROWS]])))"

text \<open>
  \<^verbatim>\<open>for col in range(COLS): if window[col][row] == sym: count += 1 else: break\<close>
\<close>

fun row_run :: "grid \<Rightarrow> symbol \<Rightarrow> nat \<Rightarrow> nat list \<Rightarrow> nat \<Rightarrow> error + nat" where
  "row_run window symb row [] count = Inr count"
| "row_run window symb row (col # rest) count =
     (if length window \<le> col then Inl IndexError
      else if length (window ! col) \<le> row then Inl IndexError
      else if window ! col ! row = symb then row_run window symb row rest (count + 1)
      else Inr count)"

text \<open>\<^verbatim>\<open>for row in range(ROWS)\<close>, for one symbol of the paytable.\<close>

fun pay_rows ::
  "nat \<Rightarrow> (string \<times> real) list \<Rightarrow> grid \<Rightarrow> symbol \<Rightarrow> nat list \<Rightarrow> real \<Rightarrow> error + real" where
  "pay_rows COLS pays window symb [] won = Inr won"
| "pay_rows COLS pays window symb (row # rest) won =
     (case row_run window symb row [0..<COLS] 0 of
        Inl e \<Rightarrow> Inl e
      | Inr count \<Rightarrow>
          (let pay_key = str_nat count
           in case map_of pays pay_key of
                Some pay \<Rightarrow>
                  if count \<ge> 3 then pay_rows COLS pays window symb rest (won + pay)
                  else pay_rows COLS pays window symb rest won
              | None \<Rightarrow> pay_rows COLS pays window symb rest won))"

text \<open>\<^verbatim>\<open>for sym, pays in pt.items()\<close>: the win check of one window.\<close>

fun check_wins :: "nat \<Rightarrow> nat \<Rightarrow> json_paytable \<Rightarrow> grid \<Rightarrow> real \<Rightarrow> error + real" where
  "check_wins COLS ROWS [] window won = Inr won"
| "check_wins COLS ROWS ((symb, pays) # rest) window won =
     (case pay_rows COLS pays window symb [0..<ROWS] won of
        Inl e \<Rightarrow> Inl e
      | Inr won' \<Rightarrow> check_wins COLS ROWS rest window won')"

fun simulate_loop ::
  "nat \<Rightarrow> nat \<Rightarrow> symbol list list \<Rightarrow> json_paytable \<Rightarrow> nat \<Rightarrow> real \<Rightarrow> rng \<Rightarrow> error + (real \<times> rng)" where
  "simulate_loop COLS ROWS reels pt 0 won rng = Inr (won, rng)"
| "simulate_loop COLS ROWS reels pt (Suc n) won [] = Inl OutOfDraws"
| "simulate_loop COLS ROWS reels pt (Suc n) won (d # rng) =
     (case draw_window ROWS reels d [0..<COLS] [] of
        Inl e \<Rightarrow> Inl e
      | Inr window \<Rightarrow>
          (case check_wins COLS ROWS pt window won of
             Inl e \<Rightarrow> Inl e
           | Inr won' \<Rightarrow> simulate_loop COLS ROWS reels pt n won' rng))"

definition simulate ::
  "nat \<Rightarrow> nat \<Rightarrow> symbol list list \<Rightarrow> json_paytable \<Rightarrow> nat \<Rightarrow> rng \<Rightarrow> error + (real \<times> rng)" where
  "simulate COLS ROWS reels pt n_spins rng =
     (let wagered = real n_spins
      in case simulate_loop COLS ROWS reels pt n_spins 0 rng of
           Inl e \<Rightarrow> Inl e
         | Inr (won, rng') \<Rightarrow>
             Inr (if wagered > 0 then (won / wagered) * 100 else 0, rng'))"




section \<open>PlayerSessionSimulator: churn risk\<close>

text \<open>
  \<^verbatim>\<open>np.median\<close> of the sessions' spin counts: the middle of the sorted counts, the mean
  of the two middle ones for an even number, \<^verbatim>\<open>nan\<close> (here \<open>None\<close>) for no session.
  Every comparison with \<^verbatim>\<open>nan\<close> is false, which leaves the initial \<^verbatim>\<open>"LOW"\<close>.
\<close>

definition np_median :: "nat list \<Rightarrow> real option" where
  "np_median xs =
     (let s = sort xs; n = length s
      in if n = 0 then None
         else if odd n then Some (real (s ! (n div 2)))
         else Some ((real (s ! (n div 2 - 1)) + real (s ! (n div 2))) / 2))"

definition churn_risk :: "real option \<Rightarrow> string" where
  "churn_risk median_spins =
     (case median_spins of
        None \<Rightarrow> ''LOW''
      | Some m \<Rightarrow>
          if m < 50 then ''CRITICAL''
          else if m < 100 then ''HIGH''
          else if m < 150 then ''MEDIUM''
          else ''LOW'')"

definition session_churn_risk :: "nat list \<Rightarrow> string" where
  "session_churn_risk spin_counts = churn_risk (np_median spin_counts)"

section \<open>Describing a run by the draws it consumed\<close>

text \<open>
  These definitions are not part of the program; the properties of the free-spin
  cascade are stated with them. \<open>drawn_grid\<close> is the grid a draw shows,
  \<open>trigger_award\<close> the number of free spins the trigger table gives for a grid (0 when
  the scatter count does not qualify), \<open>retrigger_award\<close> the same inside a cascade,
  where the retrigger switch must be on. \<open>cascade_of cfg n ds\<close> says that the draws
  \<open>ds\<close> are a whole cascade started with \<open>n\<close> free spins: before each of them the
  remaining-spin counter, \<open>n\<close> plus the retrigger awards so far minus the spins played,
  is positive, and after the last one it is zero. A run is cut into one segment per
  base spin: the draw of the base spin and the draws of its cascade.
\<close>

definition drawn_grid :: "config \<Rightarrow> draw \<Rightarrow> grid" where
  "drawn_grid cfg d = (case spin_reels cfg d of Inr grid \<Rightarrow> grid | Inl e \<Rightarrow> [])"

definition spins_well :: "config \<Rightarrow> draw \<Rightarrow> bool" where
  "spins_well cfg d =
     (case spin_reels cfg d of
        Inl e \<Rightarrow> False
      | Inr grid \<Rightarrow> (case evaluate_ways_win cfg grid of Inl e \<Rightarrow> False | Inr w \<Rightarrow> True))"

definition base_spin_win :: "config \<Rightarrow> draw \<Rightarrow> real" where
  "base_spin_win cfg d =
     (case evaluate_ways_win cfg (drawn_grid cfg d) of Inr w \<Rightarrow> w | Inl e \<Rightarrow> 0)"

definition free_spin_win :: "config \<Rightarrow> draw \<Rightarrow> real" where
  "free_spin_win cfg d = base_spin_win cfg d * FREE_SPIN_MULTIPLIER cfg"

definition trigger_award :: "config \<Rightarrow> grid \<Rightarrow> nat" where
  "trigger_award cfg grid =
     (if count_scatters cfg grid \<ge> 3
      then (case map_of (FREE_SPIN_TRIGGER cfg) (count_scatters cfg grid) of
              Some n \<Rightarrow> n | None \<Rightarrow> 0)
      else 0)"

definition retrigger_award :: "config \<Rightarrow> grid \<Rightarrow> nat" where
  "retrigger_award cfg grid = (if FREE_SPIN_RETRIGGER cfg then trigger_award cfg grid else 0)"

definition retriggered_spins :: "config \<Rightarrow> draw list \<Rightarrow> nat" where
  "retriggered_spins cfg ds = sum_list (map (\<lambda>d. retrigger_award cfg (drawn_grid cfg d)) ds)"

definition cascade_of :: "config \<Rightarrow> nat \<Rightarrow> draw list \<Rightarrow> bool" where
  "cascade_of cfg num_spins ds \<longleftrightarrow>
     list_all (spins_well cfg) ds
   \<and> length ds = num_spins + retriggered_spins cfg ds
   \<and> list_all (\<lambda>j. j < num_spins + retriggered_spins cfg (take j ds)) [0..<length ds]"

type_synonym segment = "draw \<times> draw list"

definition draws_of :: "segment list \<Rightarrow> draw list" where
  "draws_of segs = concat (map (\<lambda>(d, ds). d # ds) segs)"

definition run_of :: "config \<Rightarrow> segment list \<Rightarrow> bool" where
  "run_of cfg segs \<longleftrightarrow>
     list_all (\<lambda>(d, ds). spins_well cfg d
                 \<and> cascade_of cfg (trigger_award cfg (drawn_grid cfg d)) ds) segs"

definition awarded :: "config \<Rightarrow> segment list \<Rightarrow> nat" where
  "awarded cfg segs = sum_list (map (\<lambda>(d, ds). trigger_award cfg (drawn_grid cfg d)) segs)"

definition executed :: "segment list \<Rightarrow> nat" where
  "executed segs = sum_list (map (\<lambda>(d, ds). length ds) segs)"

definition retriggered :: "config \<Rightarrow> segment list \<Rightarrow> nat" where
  "retriggered cfg segs = sum_list (map (\<lambda>(d, ds). retriggered_spins cfg ds) segs)"




section \<open>Sample inputs\<close>

text \<open>
  The grid the shipped reel strips show for the start positions 0, 5, 0, 3, 0: three
  \<open>H1\<close> and three \<open>L2\<close> from the left, worth \<open>2.00 + 0.30\<close>.
\<close>

definition sample_draw :: draw where
  "sample_draw = (\<lambda>r. [0, 5, 0, 3, 0] ! r)"

definition sample_grid :: grid where
  "sample_grid = [[''H1'', ''L1'', ''L2''], [''H1'', ''L1'', ''L2''], [''H1'', ''L2'', ''L3''],
                  [''L3'', ''L4'', ''L1''], [''L2'', ''L3'', ''H1'']]"

text \<open>A grid whose second reel shows a wild and no \<open>H1\<close>.\<close>

definition wild_grid :: grid where
  "wild_grid = [[''H1'', ''L1'', ''L2''], [''WD'', ''L1'', ''L3''], [''H1'', ''L2'', ''L3''],
                [''L3'', ''L4'', ''L1''], [''L2'', ''L3'', ''H1'']]"

text \<open>
  A three-reel, one-row game whose reels stop on a scatter or on \<open>A\<close>; three scatters
  give one free spin.
\<close>

definition mini_config :: config where
  "mini_config = \<lparr>
     NUM_REELS = 3,
     NUM_ROWS = 1,
     REEL_STRIPS = [(0, [''SC'', ''A'']), (1, [''SC'', ''A'']), (2, [''SC'', ''A''])],
     PAYTABLE = [(''A'', [(3, 1)]), (''WD'', []), (''SC'', [])],
     WILD_SYMBOL = ''WD'',
     SCATTER_SYMBOL = ''SC'',
     FREE_SPIN_TRIGGER = [(3, 1)],
     FREE_SPIN_MULTIPLIER = 3,
     FREE_SPIN_RETRIGGER = True \<rparr>"

definition all_scatter :: draw where
  "all_scatter = (\<lambda>r. 0)"

definition all_a :: draw where
  "all_a = (\<lambda>r. 1)"


section \<open>Properties of the win evaluator\<close>

lemma filter_nth_upt:
  "length (filter (\<lambda>i. P (xs ! i)) [0..<length xs]) = length (filter P xs)"
proof -
  have "filter (\<lambda>i. P (xs ! i)) [0..<length xs] = filter (P \<circ> nth xs) [0..<length xs]"
    by (simp add: comp_def)
  then have "length (filter (\<lambda>i. P (xs ! i)) [0..<length xs])
      = length (map (nth xs) (filter (P \<circ> nth xs) [0..<length xs]))"
    by simp
  also have "\<dots> = length (filter P (map (nth xs) [0..<length xs]))"
    by (simp only: filter_map)
  finally show ?thesis by (simp add: map_nth)
qed

lemma reel_count_shape:
  assumes "grid_shape cfg grid" "reel_idx < NUM_REELS cfg"
  shows "reel_count cfg grid symbol reel_idx = Inr (spec_reel_matches cfg grid symbol reel_idx)"
proof -
  from assms have len: "length (grid ! reel_idx) = NUM_ROWS cfg" and r: "reel_idx < length grid"
    by (auto simp: grid_shape_def list_all_length)
  show ?thesis
    using len r filter_nth_upt[of "\<lambda>c. c = symbol \<or> c = WILD_SYMBOL cfg" "grid ! reel_idx"]
    by (auto simp: reel_count_def spec_reel_matches_def)
qed

lemma count_reels_shape:
  assumes "grid_shape cfg grid" "\<forall>r\<in>set idxs. r < NUM_REELS cfg"
  shows "count_reels cfg grid s idxs (counts, n) =
         Inr (counts @ takeWhile (\<lambda>n. 0 < n) (map (spec_reel_matches cfg grid s) idxs),
              n + length (takeWhile (\<lambda>n. 0 < n) (map (spec_reel_matches cfg grid s) idxs)))"
  using assms(2)
proof (induction idxs arbitrary: counts n)
  case Nil
  then show ?case by simp
next
  case (Cons r idxs)
  then show ?case
    by (simp add: reel_count_shape[OF assms(1)])
qed

lemma ways_prod: "len \<le> length counts \<Longrightarrow> ways counts len = (\<Prod>r<len. counts ! r)"
proof (induction len)
  case 0
  then show ?case by (simp add: ways_def)
next
  case (Suc len)
  then show ?case by (simp add: ways_def mult.commute)
qed

lemma pay_longest_Max:
  "pay_longest pays counts (rev [3..<Suc run]) acc =
     (if Set.filter (\<lambda>L. map_of pays L \<noteq> None) {3..run} = {} then acc
      else acc + the (map_of pays (Max (Set.filter (\<lambda>L. map_of pays L \<noteq> None) {3..run})))
                 * real (ways counts (Max (Set.filter (\<lambda>L. map_of pays L \<noteq> None) {3..run}))))"
proof (induction run)
  case 0
  then show ?case by simp
next
  case (Suc run)
  define F where "F = (\<lambda>n. Set.filter (\<lambda>L. map_of pays L \<noteq> None) {3..n})"
  have IH: "pay_longest pays counts (rev [3..<Suc run]) acc =
     (if F run = {} then acc
      else acc + the (map_of pays (Max (F run))) * real (ways counts (Max (F run))))"
    using Suc.IH by (simp only: F_def)
  have goal: "pay_longest pays counts (rev [3..<Suc (Suc run)]) acc =
     (if F (Suc run) = {} then acc
      else acc + the (map_of pays (Max (F (Suc run)))) * real (ways counts (Max (F (Suc run)))))"
  proof (cases "3 \<le> Suc run")
    case False
    then have "F (Suc run) = {}" "[3..<Suc (Suc run)] = []" by (auto simp: F_def)
    then show ?thesis by simp
  next
    case True
    then have unf: "rev [3..<Suc (Suc run)] = Suc run # rev [3..<Suc run]" by simp
    show ?thesis
    proof (cases "map_of pays (Suc run)")
      case None
      then have "F (Suc run) = F run"
        by (auto simp: F_def le_Suc_eq)
      with None IH show ?thesis unfolding unf by simp
    next
      case (Some m)
      then have mem: "Suc run \<in> F (Suc run)" using True by (auto simp: F_def)
      have "Max (F (Suc run)) = Suc run"
        by (rule Max_eqI) (use mem in \<open>auto simp: F_def\<close>)
      with Some mem show ?thesis unfolding unf by auto
    qed
  qed
  then show ?case by (simp only: F_def)
qed

lemma sum_list_filter_zero:
  fixes f :: "'a \<Rightarrow> real"
  assumes "\<And>x. x \<in> set xs \<Longrightarrow> \<not> P x \<Longrightarrow> f x = 0"
  shows "sum_list (map f (filter P xs)) = sum_list (map f xs)"
  using assms by (induction xs) auto

lemma spec_run_le: "spec_run cfg grid s \<le> NUM_REELS cfg"
  unfolding spec_run_def
  by (metis length_map length_takeWhile_le length_upt diff_zero)

lemma takeWhile_nth_counts:
  assumes "r < spec_run cfg grid s"
  shows "takeWhile (\<lambda>n. 0 < n) (map (spec_reel_matches cfg grid s) [0..<NUM_REELS cfg]) ! r
         = spec_reel_matches cfg grid s r"
proof -
  have "r < NUM_REELS cfg" using assms spec_run_le[of cfg grid s] by simp
  then show ?thesis
    using assms unfolding spec_run_def by (simp add: takeWhile_nth)
qed

lemma symbol_step:
  assumes "grid_shape cfg grid"
  shows "eval_symbols cfg grid (s # rest) acc =
         eval_symbols cfg grid rest (acc + spec_symbol_payout cfg grid s)"
proof -
  let ?tw = "takeWhile (\<lambda>n. 0 < n) (map (spec_reel_matches cfg grid s) [0..<NUM_REELS cfg])"
  have cr: "count_reels cfg grid s [0..<NUM_REELS cfg] ([], 0) = Inr (?tw, spec_run cfg grid s)"
    using count_reels_shape[OF assms, of "[0..<NUM_REELS cfg]" s "[]" 0]
    by (simp add: spec_run_def)
  have pl: "pay_longest (paytable_of cfg s) ?tw (rev [3..<Suc (spec_run cfg grid s)]) acc =
     (if spec_lengths cfg grid s = {} then acc
      else acc + the (map_of (paytable_of cfg s) (Max (spec_lengths cfg grid s)))
                 * real (ways ?tw (Max (spec_lengths cfg grid s))))"
    unfolding spec_lengths_def by (rule pay_longest_Max)
  show ?thesis
  proof (cases "spec_run cfg grid s < 3")
    case True
    then show ?thesis by (simp add: cr spec_symbol_payout_def)
  next
    case False
    show ?thesis
    proof (cases "spec_lengths cfg grid s = {}")
      case True
      then show ?thesis
        using False by (simp add: cr pl spec_symbol_payout_def del: upt_Suc)
    next
      case ne: False
      let ?M = "Max (spec_lengths cfg grid s)"
      have fin: "finite (spec_lengths cfg grid s)" by (simp add: spec_lengths_def)
      have "?M \<in> spec_lengths cfg grid s" using Max_in[OF fin ne] .
      then have Mle: "?M \<le> spec_run cfg grid s" by (auto simp: spec_lengths_def)
      have "length ?tw = spec_run cfg grid s" by (simp add: spec_run_def)
      with Mle have "ways ?tw ?M = (\<Prod>r<?M. ?tw ! r)" by (simp add: ways_prod)
      also have "\<dots> = (\<Prod>r<?M. spec_reel_matches cfg grid s r)"
        using Mle by (intro prod.cong) (auto simp: takeWhile_nth_counts)
      finally have w: "ways ?tw ?M = (\<Prod>r<?M. spec_reel_matches cfg grid s r)" .
      show ?thesis
        using False ne w
        by (simp add: cr pl spec_symbol_payout_def del: upt_Suc)
    qed
  qed
qed

lemma eval_symbols_sum:
  assumes "grid_shape cfg grid"
  shows "eval_symbols cfg grid syms acc
         = Inr (acc + sum_list (map (spec_symbol_payout cfg grid) syms))"
proof (induction syms arbitrary: acc)
  case Nil
  then show ?case by simp
next
  case (Cons s syms)
  show ?case
    unfolding symbol_step[OF assms] Cons.IH by simp
qed

lemma empty_paytable_pays_nothing:
  "paytable_of cfg s = [] \<Longrightarrow> spec_symbol_payout cfg grid s = 0"
  by (simp add: spec_symbol_payout_def spec_lengths_def)

lemma evaluate_ways_win_paying:
  assumes "grid_shape cfg grid"
  shows "evaluate_ways_win cfg grid
         = Inr (sum_list (map (spec_symbol_payout cfg grid) (paying_symbols cfg)))"
  by (simp add: evaluate_ways_win_def eval_symbols_sum[OF assms])

lemma paying_symbols_total:
  "sum_list (map (spec_symbol_payout cfg grid) (paying_symbols cfg)) = spec_total_payout cfg grid"
proof -
  let ?keys = "filter (\<lambda>s. s \<noteq> WILD_SYMBOL cfg \<and> s \<noteq> SCATTER_SYMBOL cfg) (map fst (PAYTABLE cfg))"
  have split: "paying_symbols cfg = filter (\<lambda>s. paytable_of cfg s \<noteq> []) ?keys"
    by (simp add: paying_symbols_def conj_commute)
  have "sum_list (map (spec_symbol_payout cfg grid) (paying_symbols cfg))
        = sum_list (map (spec_symbol_payout cfg grid) ?keys)"
    unfolding split by (rule sum_list_filter_zero) (simp add: empty_paytable_pays_nothing)
  then show ?thesis by (simp add: spec_total_payout_def)
qed

text \<open>
  Claim C1. On every grid of the configured shape the loops of \<^verbatim>\<open>evaluate_ways_win\<close>
  return the payout the specification describes: for each key of the paytable other
  than wild and scatter, the per-reel counts of cells equal to the symbol or the wild,
  read from the first reel up to the first reel without a match; nothing for a run
  shorter than 3 or when no length between 3 and the run is in the symbol's pay
  dictionary; otherwise the multiplier of the longest such length times the product of
  the counts over that many reels, once per symbol; the sum over the symbols.
\<close>

theorem evaluate_ways_win_spec:
  assumes "grid_shape cfg grid"
  shows "evaluate_ways_win cfg grid = Inr (spec_total_payout cfg grid)"
  unfolding evaluate_ways_win_paying[OF assms] paying_symbols_total ..

theorem evaluate_ways_win_spec_witness:
  "grid_shape default_config sample_grid
   \<and> evaluate_ways_win default_config sample_grid
       = Inr (spec_total_payout default_config sample_grid)"
proof -
  have shape: "grid_shape default_config sample_grid" by code_simp
  show ?thesis using shape evaluate_ways_win_spec [OF shape] by simp
qed

section \<open>Properties of the wild symbol\<close>

lemma count_two_symbols:
  "s \<noteq> w \<Longrightarrow> length (filter (\<lambda>c. c = s \<or> c = w) xs) = count_list xs s + count_list xs w"
  by (induction xs) auto

lemma wild_not_paying: "WILD_SYMBOL cfg \<notin> set (paying_symbols cfg)"
  by (simp add: paying_symbols_def)

lemma takeWhile_reaches:
  assumes "r < length xs" "\<forall>i\<le>r. P (xs ! i)"
  shows "r < length (takeWhile P xs)"
proof (rule ccontr)
  assume "\<not> r < length (takeWhile P xs)"
  then have le: "length (takeWhile P xs) \<le> r" by simp
  with assms(1) have "length (takeWhile P xs) < length xs" by simp
  then have "\<not> P (xs ! length (takeWhile P xs))" by (rule nth_length_takeWhile)
  with assms(2) le show False by blast
qed

lemma matches_positive:
  "s \<in> set col \<or> w \<in> set col \<Longrightarrow> 0 < length (filter (\<lambda>c. c = s \<or> c = w) col)"
  by (induction col) auto

text \<open>
  Claim C6. The wild is never one of the symbols the evaluator pays: it is left out of
  \<^verbatim>\<open>paying_symbols\<close> whatever the paytable says, and the whole payout is the sum of the
  payouts of the paying symbols. On every reel the count taken for a paying symbol is
  the number of its own cells plus the number of wild cells, so a reel that shows a
  wild continues the run of every paying symbol that has reached it.
\<close>

theorem wild_substitutes_never_pays:
  assumes "grid_shape cfg grid"
  shows "WILD_SYMBOL cfg \<notin> set (paying_symbols cfg)
     \<and> evaluate_ways_win cfg grid
         = Inr (sum_list (map (spec_symbol_payout cfg grid) (paying_symbols cfg)))
     \<and> (\<forall>s\<in>set (paying_symbols cfg). \<forall>r<NUM_REELS cfg.
          reel_count cfg grid s r
            = Inr (count_list (grid ! r) s + count_list (grid ! r) (WILD_SYMBOL cfg))
          \<and> ((\<forall>r'\<le>r. s \<in> set (grid ! r') \<or> WILD_SYMBOL cfg \<in> set (grid ! r'))
               \<longrightarrow> (\<exists>counts n. count_reels cfg grid s [0..<NUM_REELS cfg] ([], 0) = Inr (counts, n)
                      \<and> r < n)))"
proof (intro conjI ballI allI impI)
  show "WILD_SYMBOL cfg \<notin> set (paying_symbols cfg)" by (rule wild_not_paying)
next
  show "evaluate_ways_win cfg grid
         = Inr (sum_list (map (spec_symbol_payout cfg grid) (paying_symbols cfg)))"
    by (rule evaluate_ways_win_paying[OF assms])
next
  fix s r
  assume s: "s \<in> set (paying_symbols cfg)" and r: "r < NUM_REELS cfg"
  from s have "s \<noteq> WILD_SYMBOL cfg" using wild_not_paying by blast
  then show "reel_count cfg grid s r
            = Inr (count_list (grid ! r) s + count_list (grid ! r) (WILD_SYMBOL cfg))"
    by (simp add: reel_count_shape[OF assms r] spec_reel_matches_def count_two_symbols)
next
  fix s r
  assume s: "s \<in> set (paying_symbols cfg)" and r: "r < NUM_REELS cfg"
    and all: "\<forall>r'\<le>r. s \<in> set (grid ! r') \<or> WILD_SYMBOL cfg \<in> set (grid ! r')"
  let ?ms = "map (spec_reel_matches cfg grid s) [0..<NUM_REELS cfg]"
  have cr: "count_reels cfg grid s [0..<NUM_REELS cfg] ([], 0)
            = Inr (takeWhile (\<lambda>n. 0 < n) ?ms, length (takeWhile (\<lambda>n. 0 < n) ?ms))"
    using count_reels_shape[OF assms, of "[0..<NUM_REELS cfg]" s "[]" 0] by simp
  have "\<forall>i\<le>r. 0 < ?ms ! i"
  proof (intro allI impI)
    fix i assume "i \<le> r"
    with r all have "i < NUM_REELS cfg"
      and "s \<in> set (grid ! i) \<or> WILD_SYMBOL cfg \<in> set (grid ! i)" by auto
    then show "0 < ?ms ! i"
      using matches_positive[of s "grid ! i" "WILD_SYMBOL cfg"]
      by (simp add: spec_reel_matches_def)
  qed
  then have "r < length (takeWhile (\<lambda>n. 0 < n) ?ms)"
    using r by (intro takeWhile_reaches) auto
  with cr show "\<exists>counts n. count_reels cfg grid s [0..<NUM_REELS cfg] ([], 0) = Inr (counts, n)
                      \<and> r < n" by blast
qed

theorem wild_substitutes_never_pays_witness:
  "grid_shape default_config wild_grid
   \<and> ''H1'' \<in> set (paying_symbols default_config)
   \<and> reel_count default_config wild_grid ''H1'' 1 = Inr 1
   \<and> (\<exists>counts n. count_reels default_config wild_grid ''H1'' [0..<NUM_REELS default_config] ([], 0)
          = Inr (counts, n) \<and> 2 < n)"
proof -
  have shape: "grid_shape default_config wild_grid" by code_simp
  have s: "''H1'' \<in> set (paying_symbols default_config)" by code_simp
  have r1: "(1::nat) < NUM_REELS default_config" and r2: "(2::nat) < NUM_REELS default_config"
    by (simp_all add: default_config_def)
  have cols: "\<forall>r'\<le>2. ''H1'' \<in> set (wild_grid ! r')
                 \<or> WILD_SYMBOL default_config \<in> set (wild_grid ! r')"
    by (simp add: wild_grid_def default_config_def le_Suc_eq numeral_2_eq_2 all_conj_distrib)
  have c: "count_list (wild_grid ! 1) ''H1''
           + count_list (wild_grid ! 1) (WILD_SYMBOL default_config) = 1"
    by (simp add: wild_grid_def default_config_def)
  from wild_substitutes_never_pays [OF shape] s r1 r2 cols c show ?thesis
    using shape by (metis)
qed

section \<open>Properties of the statistics accumulator\<close>

lemma place_bet_counts:
  "total_spins (place_bet stats) = total_spins stats + 1"
  "total_wagered (place_bet stats) = total_wagered stats + 1"
  by (simp_all add: place_bet_def bet_per_spin_def)

lemma check_free_spins_counts:
  assumes "check_free_spins cfg grid stats w rng = Inr (stats', w', rng')"
  shows "total_spins stats' = total_spins stats \<and> total_wagered stats' = total_wagered stats"
  using assms
  by (auto simp: check_free_spins_def Let_def split: if_splits option.splits sum.splits)

lemma track_stats_counts:
  "total_spins (track_stats stats w) = total_spins stats"
  "total_wagered (track_stats stats w) = total_wagered stats"
  by (simp_all add: track_stats_def Let_def)

lemma spin_step_counts:
  assumes "spin_step cfg stats rng = Inr (stats', rng')"
  shows "total_spins stats' = total_spins stats + 1
         \<and> total_wagered stats' = total_wagered stats + 1"
  using assms
  by (auto simp: spin_step_def Let_def track_stats_counts place_bet_counts
           split: list.splits sum.splits dest!: check_free_spins_counts)

lemma run_spins_counts:
  assumes "run_spins cfg n stats rng = Inr (stats', rng')"
  shows "total_spins stats' = total_spins stats + n
         \<and> total_wagered stats' = total_wagered stats + real n"
  using assms
proof (induction n arbitrary: stats rng)
  case 0
  then show ?case by simp
next
  case (Suc n)
  from Suc.prems obtain s1 r1 where
    step: "spin_step cfg stats rng = Inr (s1, r1)" and rest: "run_spins cfg n s1 r1 = Inr (stats', rng')"
    by (auto split: sum.splits)
  from spin_step_counts[OF step] Suc.IH[OF rest] show ?case by simp
qed

lemma run_spins_add:
  "run_spins cfg (a + b) stats rng =
     (case run_spins cfg a stats rng of
        Inl e \<Rightarrow> Inl e
      | Inr (stats', rng') \<Rightarrow> run_spins cfg b stats' rng')"
  by (induction a arbitrary: stats rng) (auto split: sum.splits)

text \<open>
  Claim C4. In a run that completes \<open>num_spins\<close> spins, the statistics after any number
  \<open>k\<close> of spins exist and have \<^verbatim>\<open>total_wagered == total_spins == k\<close>; the equality
  holds again as soon as the next spin has added its bet (the two increments that open
  the loop body, taken together), and it holds of the final statistics and of the
  wagered total reported from them. Amounts are exact reals here; the float of the
  source adds 1.0 each time, which is exact below \<open>2^53\<close> spins.
\<close>

theorem wagered_equals_spins:
  assumes "run_spins cfg num_spins new_stats rng = Inr (final, rng_final)"
    and "k \<le> num_spins"
  shows "\<exists>stats rng'.
           run_spins cfg k new_stats rng = Inr (stats, rng')
         \<and> run_spins cfg (num_spins - k) stats rng' = Inr (final, rng_final)
         \<and> total_wagered stats = real (total_spins stats) \<and> total_spins stats = k
         \<and> total_wagered (place_bet stats) = real (total_spins (place_bet stats))
         \<and> total_wagered final = real (total_spins final) \<and> total_spins final = num_spins
         \<and> (\<forall>jurisdictions res. final_metrics jurisdictions final = Inr res
               \<longrightarrow> summary_total_wagered res = real num_spins)"
proof -
  have split: "run_spins cfg (k + (num_spins - k)) new_stats rng = Inr (final, rng_final)"
    using assms by simp
  then obtain stats rng' where
    pre: "run_spins cfg k new_stats rng = Inr (stats, rng')"
    and post: "run_spins cfg (num_spins - k) stats rng' = Inr (final, rng_final)"
    unfolding run_spins_add by (auto split: sum.splits)
  have k: "total_wagered stats = real (total_spins stats) \<and> total_spins stats = k"
    using run_spins_counts[OF pre] by (simp add: new_stats_def)
  have n: "total_wagered final = real (total_spins final) \<and> total_spins final = num_spins"
    using run_spins_counts[OF assms(1)] by (simp add: new_stats_def)
  have fin: "\<forall>jurisdictions res. final_metrics jurisdictions final = Inr res
               \<longrightarrow> summary_total_wagered res = real num_spins"
    using n by (auto simp: final_metrics_def Let_def split: sum.splits)
  show ?thesis
    using pre post k n fin by (auto simp: place_bet_counts)
qed

theorem wagered_equals_spins_witness:
  "\<exists>final. run_spins default_config 2 new_stats [sample_draw, sample_draw] = Inr (final, [])
     \<and> (1::nat) \<le> 2
     \<and> (\<exists>stats rng'. run_spins default_config 1 new_stats [sample_draw, sample_draw] = Inr (stats, rng')
           \<and> total_wagered stats = real (total_spins stats) \<and> total_spins stats = 1
           \<and> total_wagered final = real (total_spins final) \<and> total_spins final = 2)"
proof -
  have "case run_spins default_config 2 new_stats [sample_draw, sample_draw] of
          Inl e \<Rightarrow> False | Inr (final, r) \<Rightarrow> r = []"
    by code_simp
  then obtain final where
    run: "run_spins default_config 2 new_stats [sample_draw, sample_draw] = Inr (final, [])"
    by (auto split: sum.splits)
  have k: "(1::nat) \<le> 2" by simp
  from wagered_equals_spins [OF run k] run k show ?thesis by auto
qed

text \<open>
  Claim C3. With zero spins the loop does nothing and the first metric computed after
  it, \<^verbatim>\<open>stats.total_won / stats.total_wagered\<close>, divides the float 0.0 by the float 0.0:
  Python raises \<^verbatim>\<open>ZeroDivisionError\<close>. The guard \<^verbatim>\<open>if stats.total_wagered > 0 else 0\<close>
  protects only the progress line inside the loop, and the report has no validity flag.
\<close>

theorem run_simulation_zero_spins_raises:
  "run_simulation cfg jurisdictions 0 rng = Inl ZeroDivisionError"
  by (simp add: run_simulation_def final_metrics_def py_div_def new_stats_def)

text \<open>
  For a measured RTP between 0 and 100 the interval is defined and contains the
  measured RTP.
\<close>

lemma confidence_interval_in_range:
  assumes "final_metrics jurisdictions stats = Inr res"
    and "0 \<le> measured_rtp res" "measured_rtp res \<le> 100"
  shows "\<exists>lo hi. rtp_confidence_interval_99 res = Some (lo, hi)
           \<and> lo \<le> measured_rtp res \<and> measured_rtp res \<le> hi"
proof -
  from assms(1) obtain q h where
    q: "py_div (total_won stats) (total_wagered stats) = Inr q"
    and h: "py_div (real (wins stats)) (real (total_spins stats)) = Inr h"
    by (auto simp: final_metrics_def Let_def split: sum.splits)
  have rtp: "measured_rtp res = q * 100"
    using assms(1) q h by (auto simp: final_metrics_def Let_def)
  let ?x = "q * 100 * (100 - q * 100) / real (total_spins stats)"
  have "0 \<le> ?x" using assms(2,3) rtp by (intro divide_nonneg_nonneg mult_nonneg_nonneg) simp_all
  then have sq: "np_sqrt ?x = Some (sqrt ?x)" by (simp add: np_sqrt_def)
  have ci: "rtp_confidence_interval_99 res
            = Some (q * 100 - 2.576 * sqrt ?x, q * 100 + 2.576 * sqrt ?x)"
    using assms(1) q h sq by (auto simp: final_metrics_def Let_def)
  have "0 \<le> 2.576 * sqrt ?x" using \<open>0 \<le> ?x\<close> by simp
  then show ?thesis unfolding ci rtp by auto
qed

text \<open>
  Claim C8. The run of one spin on the shipped configuration that shows
  \<open>sample_grid\<close> wins 2.3 on a bet of 1: the measured RTP is 230, the argument of
  \<^verbatim>\<open>np.sqrt\<close> is negative, and the confidence interval is \<^verbatim>\<open>(nan, nan)\<close>, which does
  not contain the measured RTP. The volatility index next to it guards its square root
  with \<^verbatim>\<open>if variance_approx > 0 else 0\<close>; the interval has no such guard.
\<close>

theorem confidence_interval_undefined_above_100:
  "\<exists>res. run_simulation default_config [] 1 [sample_draw] = Inr res
     \<and> measured_rtp res = 230 \<and> rtp_confidence_interval_99 res = None"
proof -
  have "case run_spins default_config 1 new_stats [sample_draw] of
          Inl e \<Rightarrow> False
        | Inr (stats, r) \<Rightarrow> total_won stats = 23/10 \<and> total_wagered stats = 1
             \<and> total_spins stats = 1 \<and> wins stats = 1"
    by code_simp
  then obtain stats r where
    run: "run_spins default_config 1 new_stats [sample_draw] = Inr (stats, r)"
    and v: "total_won stats = 23/10" "total_wagered stats = 1" "total_spins stats = 1"
           "wins stats = 1"
    by (auto split: sum.splits)
  show ?thesis
    unfolding run_simulation_def run
    by (simp add: final_metrics_def py_div_def np_sqrt_def Let_def v)
qed

section \<open>Properties of the optimizer\<close>






section \<open>Properties of the churn classification\<close>

text \<open>
  Claim C9. The churn risk derived from a batch of sessions is the classification of
  the median spin count: \<open>CRITICAL\<close> below 50, \<open>HIGH\<close> from 50 and below 100,
  \<open>MEDIUM\<close> from 100 and below 150, \<open>LOW\<close> from 150; so 49 gives \<open>CRITICAL\<close>,
  149 \<open>MEDIUM\<close> and 151 \<open>LOW\<close>.
\<close>

theorem churn_risk_thresholds:
  "(m < 50 \<longrightarrow> churn_risk (Some m) = ''CRITICAL'')
   \<and> (50 \<le> m \<and> m < 100 \<longrightarrow> churn_risk (Some m) = ''HIGH'')
   \<and> (100 \<le> m \<and> m < 150 \<longrightarrow> churn_risk (Some m) = ''MEDIUM'')
   \<and> (150 \<le> m \<longrightarrow> churn_risk (Some m) = ''LOW'')
   \<and> (np_median spin_counts = Some m \<longrightarrow> session_churn_risk spin_counts = churn_risk (Some m))
   \<and> churn_risk (Some 49) = ''CRITICAL''
   \<and> churn_risk (Some 149) = ''MEDIUM''
   \<and> churn_risk (Some 151) = ''LOW''"
  by (simp add: churn_risk_def session_churn_risk_def)

theorem churn_risk_thresholds_witness:
  "(49::real) < 50 \<and> np_median [40, 58, 49] = Some 49
   \<and> session_churn_risk [40, 58, 49] = ''CRITICAL''
   \<and> (50::real) \<le> 75 \<and> (75::real) < 100 \<and> churn_risk (Some 75) = ''HIGH''
   \<and> (100::real) \<le> 149 \<and> (149::real) < 150 \<and> churn_risk (Some 149) = ''MEDIUM''
   \<and> (150::real) \<le> 151 \<and> churn_risk (Some 151) = ''LOW''"
proof -
  have m: "np_median [40, 58, 49] = Some 49" by (simp add: np_median_def)
  have a: "session_churn_risk [40, 58, 49] = ''CRITICAL''"
    using churn_risk_thresholds [of 49 "[40, 58, 49]"] m by simp
  have b: "churn_risk (Some 75) = ''HIGH''"
    using churn_risk_thresholds [of 75 "[]"] by simp
  have c: "churn_risk (Some 149) = ''MEDIUM''"
    using churn_risk_thresholds [of 149 "[]"] by simp
  have d: "churn_risk (Some 151) = ''LOW''"
    using churn_risk_thresholds [of 151 "[]"] by simp
  show ?thesis using m a b c d by simp
qed

section \<open>Properties of the free-spin cascade\<close>

lemma cascade_of_alt:
  "cascade_of cfg n ds \<longleftrightarrow>
     list_all (spins_well cfg) ds
   \<and> length ds = n + sum_list (map (\<lambda>d. retrigger_award cfg (drawn_grid cfg d)) ds)
   \<and> (\<forall>j<length ds.
         j < n + sum_list (map (\<lambda>d. retrigger_award cfg (drawn_grid cfg d)) (take j ds)))"
  by (auto simp: cascade_of_def retriggered_spins_def list_all_iff)

lemma free_spin_body_eq:
  "free_spin_body cfg grid (tw, n) =
     (case evaluate_ways_win cfg grid of
        Inl e \<Rightarrow> Inl e
      | Inr w \<Rightarrow> Inr (tw + w * FREE_SPIN_MULTIPLIER cfg, n - 1 + retrigger_award cfg grid))"
  by (auto simp: free_spin_body_def retrigger_award_def trigger_award_def Let_def
           split: sum.splits option.splits)

lemma loop_zero: "run_free_spins_loop cfg (tw, 0) rng = Inr (tw, rng)"
  by (cases rng) simp_all

lemma loop_step:
  assumes "0 < n" "spins_well cfg d"
  shows "run_free_spins_loop cfg (tw, n) (d # rng) =
         run_free_spins_loop cfg
           (tw + free_spin_win cfg d, n - 1 + retrigger_award cfg (drawn_grid cfg d)) rng"
  using assms
  by (auto simp: spins_well_def free_spin_body_eq drawn_grid_def free_spin_win_def
        base_spin_win_def split: sum.splits)

lemma loop_step_inv:
  assumes "0 < n" "run_free_spins_loop cfg (tw, n) (d # rng) = Inr res"
  shows "spins_well cfg d"
  using assms
  by (auto simp: spins_well_def free_spin_body_eq split: sum.splits)

lemma cascade_of_Nil: "cascade_of cfg n [] \<longleftrightarrow> n = 0"
  by (auto simp: cascade_of_alt)

lemma cascade_of_Cons:
  "cascade_of cfg n (d # ds) \<longleftrightarrow>
     0 < n \<and> spins_well cfg d
     \<and> cascade_of cfg (n - 1 + retrigger_award cfg (drawn_grid cfg d)) ds"
proof -
  let ?a = "\<lambda>d. retrigger_award cfg (drawn_grid cfg d)"
  let ?m = "n - 1 + ?a d"
  have pos: "(\<forall>j<length (d # ds). j < n + sum_list (map ?a (take j (d # ds))))
        \<longleftrightarrow> 0 < n \<and> (\<forall>j<length ds. j < ?m + sum_list (map ?a (take j ds)))"
    (is "?L \<longleftrightarrow> ?R")
  proof
    assume L: ?L
    then have "0 < n + sum_list (map ?a (take 0 (d # ds)))" by fastforce
    then have n: "0 < n" by simp
    have "\<forall>j<length ds. j < ?m + sum_list (map ?a (take j ds))"
    proof (intro allI impI)
      fix j assume "j < length ds"
      then have "Suc j < length (d # ds)" by simp
      with L have "Suc j < n + sum_list (map ?a (take (Suc j) (d # ds)))" by blast
      then show "j < ?m + sum_list (map ?a (take j ds))" using n by simp
    qed
    with n show ?R by blast
  next
    assume R: ?R
    show ?L
    proof (intro allI impI)
      fix j assume j: "j < length (d # ds)"
      show "j < n + sum_list (map ?a (take j (d # ds)))"
      proof (cases j)
        case 0
        then show ?thesis using R by simp
      next
        case (Suc j')
        with j have "j' < length ds" by simp
        with R have "j' < ?m + sum_list (map ?a (take j' ds))" by blast
        moreover from R have "0 < n" by blast
        ultimately show ?thesis using Suc by simp
      qed
    qed
  qed
  have len: "0 < n \<Longrightarrow> length (d # ds) = n + sum_list (map ?a (d # ds))
        \<longleftrightarrow> length ds = ?m + sum_list (map ?a ds)"
    by (simp; arith)
  have all: "list_all (spins_well cfg) (d # ds)
        \<longleftrightarrow> spins_well cfg d \<and> list_all (spins_well cfg) ds" by simp
  show ?thesis
  proof (cases "0 < n")
    case True
    show ?thesis
      unfolding cascade_of_alt pos all len[OF True] using True by blast
  next
    case False
    show ?thesis
      unfolding cascade_of_alt pos using False by blast
  qed
qed

lemma loop_sound:
  assumes "run_free_spins_loop cfg (tw, n) rng = Inr (tw', rng')"
  shows "\<exists>ds. rng = ds @ rng' \<and> cascade_of cfg n ds
              \<and> tw' = tw + sum_list (map (free_spin_win cfg) ds)"
  using assms
proof (induction rng arbitrary: tw n)
  case Nil
  then show ?case by (auto simp: cascade_of_Nil split: if_splits)
next
  case (Cons d rng)
  show ?case
  proof (cases "0 < n")
    case False
    with Cons.prems show ?thesis by (auto simp: cascade_of_Nil)
  next
    case True
    have well: "spins_well cfg d" using loop_step_inv[OF True Cons.prems] .
    from Cons.prems have "run_free_spins_loop cfg
           (tw + free_spin_win cfg d, n - 1 + retrigger_award cfg (drawn_grid cfg d)) rng
           = Inr (tw', rng')"
      unfolding loop_step[OF True well] .
    from Cons.IH[OF this] obtain ds where
      ds: "rng = ds @ rng'"
          "cascade_of cfg (n - 1 + retrigger_award cfg (drawn_grid cfg d)) ds"
          "tw' = tw + free_spin_win cfg d + sum_list (map (free_spin_win cfg) ds)"
      by blast
    have "d # rng = (d # ds) @ rng'" using ds(1) by simp
    moreover have "cascade_of cfg n (d # ds)"
      unfolding cascade_of_Cons using True well ds(2) by blast
    moreover have "tw' = tw + sum_list (map (free_spin_win cfg) (d # ds))"
      using ds(3) by simp
    ultimately show ?thesis by blast
  qed
qed

lemma loop_complete:
  assumes "cascade_of cfg n ds"
  shows "run_free_spins_loop cfg (tw, n) (ds @ rest)
         = Inr (tw + sum_list (map (free_spin_win cfg) ds), rest)"
  using assms
proof (induction ds arbitrary: tw n)
  case Nil
  then show ?case by (simp add: cascade_of_Nil loop_zero)
next
  case (Cons d ds)
  from Cons.prems have n: "0 < n" and well: "spins_well cfg d"
    and rest: "cascade_of cfg (n - 1 + retrigger_award cfg (drawn_grid cfg d)) ds"
    unfolding cascade_of_Cons by blast+
  show ?case
    using loop_step[OF n well, of tw "ds @ rest"] Cons.IH[OF rest]
    by (simp add: add.assoc)
qed

lemma run_free_spins_iff:
  "run_free_spins cfg n rng = Inr (fw, rng') \<longleftrightarrow>
     (\<exists>ds. rng = ds @ rng' \<and> cascade_of cfg n ds \<and> fw = sum_list (map (free_spin_win cfg) ds))"
proof
  assume "run_free_spins cfg n rng = Inr (fw, rng')"
  then show "\<exists>ds. rng = ds @ rng' \<and> cascade_of cfg n ds
                \<and> fw = sum_list (map (free_spin_win cfg) ds)"
    unfolding run_free_spins_def using loop_sound[of cfg 0 n rng fw rng'] by simp
next
  assume "\<exists>ds. rng = ds @ rng' \<and> cascade_of cfg n ds
                \<and> fw = sum_list (map (free_spin_win cfg) ds)"
  then show "run_free_spins cfg n rng = Inr (fw, rng')"
    unfolding run_free_spins_def using loop_complete[of cfg n _ 0 rng'] by auto
qed

lemma check_free_spins_sound:
  assumes "check_free_spins cfg grid stats w rng = Inr (stats', w', rng')"
  shows "\<exists>fw. run_free_spins cfg (trigger_award cfg grid) rng = Inr (fw, rng')"
  using assms
  by (auto simp: check_free_spins_def trigger_award_def Let_def run_free_spins_def loop_zero
           split: if_splits option.splits sum.splits)

lemma check_free_spins_complete:
  assumes "run_free_spins cfg (trigger_award cfg grid) rng = Inr (fw, rng')"
  shows "\<exists>stats'. check_free_spins cfg grid stats w rng = Inr (stats', w + fw, rng')
           \<and> free_spins_played stats' = free_spins_played stats + trigger_award cfg grid
           \<and> feature_won stats' = feature_won stats + fw
           \<and> base_game_won stats' = base_game_won stats
           \<and> total_won stats' = total_won stats"
  using assms
  by (auto simp: check_free_spins_def trigger_award_def Let_def run_free_spins_def loop_zero
           split: if_splits option.splits sum.splits)

lemma track_stats_fields:
  "total_won (track_stats stats w) = total_won stats + w"
  "free_spins_played (track_stats stats w) = free_spins_played stats"
  "feature_won (track_stats stats w) = feature_won stats"
  "base_game_won (track_stats stats w) = base_game_won stats"
  by (simp_all add: track_stats_def Let_def)

lemma place_bet_fields:
  "total_won (place_bet stats) = total_won stats"
  "free_spins_played (place_bet stats) = free_spins_played stats"
  "feature_won (place_bet stats) = feature_won stats"
  "base_game_won (place_bet stats) = base_game_won stats"
  by (simp_all add: place_bet_def Let_def)

lemma spins_wellE:
  assumes "spins_well cfg d"
  obtains grid w where "spin_reels cfg d = Inr grid" "evaluate_ways_win cfg grid = Inr w"
    "drawn_grid cfg d = grid" "base_spin_win cfg d = w"
  using assms
  by (auto simp: spins_well_def drawn_grid_def base_spin_win_def split: sum.splits)

lemma spin_step_complete:
  assumes well: "spins_well cfg d"
    and casc: "cascade_of cfg (trigger_award cfg (drawn_grid cfg d)) ds"
  shows "\<exists>stats'. spin_step cfg stats (d # ds @ rest) = Inr (stats', rest)
           \<and> free_spins_played stats' = free_spins_played stats + trigger_award cfg (drawn_grid cfg d)
           \<and> total_won stats' = total_won stats
                 + (base_spin_win cfg d + sum_list (map (free_spin_win cfg) ds))
           \<and> feature_won stats' = feature_won stats + sum_list (map (free_spin_win cfg) ds)
           \<and> base_game_won stats' = base_game_won stats + base_spin_win cfg d"
proof -
  from well obtain grid w where g: "spin_reels cfg d = Inr grid"
    "evaluate_ways_win cfg grid = Inr w" "drawn_grid cfg d = grid" "base_spin_win cfg d = w"
    by (rule spins_wellE)
  let ?fw = "sum_list (map (free_spin_win cfg) ds)"
  let ?s1 = "(place_bet stats)\<lparr>base_game_won := base_game_won (place_bet stats) + w\<rparr>"
  have "run_free_spins cfg (trigger_award cfg grid) (ds @ rest) = Inr (?fw, rest)"
    unfolding run_free_spins_iff using casc g(3) by blast
  from check_free_spins_complete[OF this, of ?s1 w] obtain s2 where
    s2: "check_free_spins cfg grid ?s1 w (ds @ rest) = Inr (s2, w + ?fw, rest)"
        "free_spins_played s2 = free_spins_played ?s1 + trigger_award cfg grid"
        "feature_won s2 = feature_won ?s1 + ?fw"
        "base_game_won s2 = base_game_won ?s1"
        "total_won s2 = total_won ?s1"
    by blast
  have step: "spin_step cfg stats (d # ds @ rest) = Inr (track_stats s2 (w + ?fw), rest)"
    by (simp add: spin_step_def Let_def g(1,2) s2(1))
  show ?thesis
    unfolding step using s2(2-5) g(3,4)
    by (simp add: track_stats_fields place_bet_fields)
qed

lemma spin_step_sound:
  assumes "spin_step cfg stats (d # rng) = Inr (stats', rng')"
  shows "spins_well cfg d
         \<and> (\<exists>ds. rng = ds @ rng' \<and> cascade_of cfg (trigger_award cfg (drawn_grid cfg d)) ds)"
proof -
  from assms obtain grid w s2 w' where
    g: "spin_reels cfg d = Inr grid" "evaluate_ways_win cfg grid = Inr w"
    and c: "check_free_spins cfg grid
              ((place_bet stats)\<lparr>base_game_won := base_game_won (place_bet stats) + w\<rparr>) w rng
            = Inr (s2, w', rng')"
    by (auto simp: spin_step_def Let_def split: sum.splits)
  have well: "spins_well cfg d" and dg: "drawn_grid cfg d = grid"
    using g by (simp_all add: spins_well_def drawn_grid_def)
  from check_free_spins_sound[OF c] obtain fw where
    "run_free_spins cfg (trigger_award cfg grid) rng = Inr (fw, rng')" by blast
  then have "\<exists>ds. rng = ds @ rng' \<and> cascade_of cfg (trigger_award cfg grid) ds"
    unfolding run_free_spins_iff by blast
  with well dg show ?thesis by simp
qed

text \<open>
  Claim C5. A free spin takes one from the remaining-spin counter and a qualifying
  scatter count adds the trigger table's amount to what is left; the counter is never
  reset. A base spin whose draw is followed by the draws \<open>ds\<close> completes consuming
  exactly \<open>ds\<close> if and only if \<open>ds\<close> is a whole cascade for the awarded number of free
  spins, that is, the counter first reaches zero after the last draw of \<open>ds\<close>; the
  wins of the cascade, each times the free-spin multiplier, are added to the base win
  in the spin's contribution to \<^verbatim>\<open>total_won\<close>.
\<close>

theorem free_spin_cascade:
  assumes "spins_well cfg d"
  shows "(\<forall>grid tw n w. evaluate_ways_win cfg grid = Inr w \<longrightarrow>
            free_spin_body cfg grid (tw, n)
              = Inr (tw + w * FREE_SPIN_MULTIPLIER cfg, n - 1 + retrigger_award cfg grid))
       \<and> (\<forall>ds rest. cascade_of cfg (trigger_award cfg (drawn_grid cfg d)) ds \<longrightarrow>
            (\<exists>stats'. spin_step cfg stats (d # ds @ rest) = Inr (stats', rest)
               \<and> total_won stats' = total_won stats
                    + (base_spin_win cfg d + sum_list (map (free_spin_win cfg) ds))
               \<and> feature_won stats' = feature_won stats + sum_list (map (free_spin_win cfg) ds)))
       \<and> (\<forall>rng stats' rng'. spin_step cfg stats (d # rng) = Inr (stats', rng') \<longrightarrow>
            (\<exists>ds. rng = ds @ rng'
               \<and> cascade_of cfg (trigger_award cfg (drawn_grid cfg d)) ds))"
proof (intro conjI allI impI)
  fix grid tw n w
  assume "evaluate_ways_win cfg grid = Inr w"
  then show "free_spin_body cfg grid (tw, n)
              = Inr (tw + w * FREE_SPIN_MULTIPLIER cfg, n - 1 + retrigger_award cfg grid)"
    by (simp add: free_spin_body_eq)
next
  fix ds rest
  assume "cascade_of cfg (trigger_award cfg (drawn_grid cfg d)) ds"
  from spin_step_complete[OF assms this, of stats rest]
  show "\<exists>stats'. spin_step cfg stats (d # ds @ rest) = Inr (stats', rest)
               \<and> total_won stats' = total_won stats
                    + (base_spin_win cfg d + sum_list (map (free_spin_win cfg) ds))
               \<and> feature_won stats' = feature_won stats + sum_list (map (free_spin_win cfg) ds)"
    by blast
next
  fix rng stats' rng'
  assume "spin_step cfg stats (d # rng) = Inr (stats', rng')"
  from spin_step_sound[OF this]
  show "\<exists>ds. rng = ds @ rng' \<and> cascade_of cfg (trigger_award cfg (drawn_grid cfg d)) ds"
    by blast
qed

theorem free_spin_cascade_witness:
  "spins_well mini_config all_scatter
   \<and> cascade_of mini_config (trigger_award mini_config (drawn_grid mini_config all_scatter))
        [all_scatter, all_a]
   \<and> trigger_award mini_config (drawn_grid mini_config all_scatter) = 1
   \<and> retrigger_award mini_config (drawn_grid mini_config all_scatter) = 1
   \<and> (\<exists>stats'. spin_step mini_config new_stats [all_scatter, all_scatter, all_a] = Inr (stats', [])
         \<and> total_won stats' = 3 \<and> feature_won stats' = 3)"
proof -
  have well: "spins_well mini_config all_scatter" by code_simp
  have casc: "cascade_of mini_config (trigger_award mini_config (drawn_grid mini_config all_scatter))
                [all_scatter, all_a]" by code_simp
  have t: "trigger_award mini_config (drawn_grid mini_config all_scatter) = 1" by code_simp
  have r: "retrigger_award mini_config (drawn_grid mini_config all_scatter) = 1" by code_simp
  have w: "base_spin_win mini_config all_scatter = 0"
    "free_spin_win mini_config all_scatter = 0" "free_spin_win mini_config all_a = 3"
    by code_simp+
  from free_spin_cascade [OF well, of new_stats] casc
  have "\<exists>stats'. spin_step mini_config new_stats (all_scatter # [all_scatter, all_a] @ [])
                     = Inr (stats', [])
          \<and> total_won stats' = total_won new_stats
               + (base_spin_win mini_config all_scatter
                  + sum_list (map (free_spin_win mini_config) [all_scatter, all_a]))
          \<and> feature_won stats' = feature_won new_stats
               + sum_list (map (free_spin_win mini_config) [all_scatter, all_a])"
    by blast
  then have "\<exists>stats'. spin_step mini_config new_stats [all_scatter, all_scatter, all_a] = Inr (stats', [])
         \<and> total_won stats' = 3 \<and> feature_won stats' = 3"
    by (simp add: w new_stats_def)
  with well casc t r show ?thesis by blast
qed

lemma run_complete:
  assumes "run_of cfg segs"
  shows "\<exists>stats'. run_spins cfg (length segs) stats (draws_of segs @ rest) = Inr (stats', rest)
           \<and> free_spins_played stats' = free_spins_played stats + awarded cfg segs"
  using assms
proof (induction segs arbitrary: stats)
  case Nil
  then show ?case by (simp add: draws_of_def awarded_def)
next
  case (Cons seg segs)
  obtain d ds where seg: "seg = (d, ds)" by (cases seg)
  from Cons.prems seg have well: "spins_well cfg d"
    and casc: "cascade_of cfg (trigger_award cfg (drawn_grid cfg d)) ds"
    and rest: "run_of cfg segs"
    by (simp_all add: run_of_def)
  from spin_step_complete[OF well casc, of stats "draws_of segs @ rest"] obtain s1 where
    s1: "spin_step cfg stats (d # ds @ draws_of segs @ rest) = Inr (s1, draws_of segs @ rest)"
        "free_spins_played s1 = free_spins_played stats + trigger_award cfg (drawn_grid cfg d)"
    by blast
  from Cons.IH[OF rest, of s1] obtain stats' where
    s2: "run_spins cfg (length segs) s1 (draws_of segs @ rest) = Inr (stats', rest)"
        "free_spins_played stats' = free_spins_played s1 + awarded cfg segs"
    by blast
  have draws: "draws_of (seg # segs) @ rest = d # ds @ draws_of segs @ rest"
    by (simp add: draws_of_def seg)
  have "run_spins cfg (length (seg # segs)) stats (draws_of (seg # segs) @ rest) = Inr (stats', rest)"
    unfolding draws by (simp add: s1(1) s2(1))
  moreover have "free_spins_played stats' = free_spins_played stats + awarded cfg (seg # segs)"
    using s1(2) s2(2) by (simp add: awarded_def seg)
  ultimately show ?case by blast
qed

lemma run_sound:
  assumes "run_spins cfg n stats rng = Inr (final, rng')"
  shows "\<exists>segs. length segs = n \<and> rng = draws_of segs @ rng' \<and> run_of cfg segs"
  using assms
proof (induction n arbitrary: stats rng)
  case 0
  then have "rng = draws_of [] @ rng'" by (simp add: draws_of_def)
  moreover have "run_of cfg []" by (simp add: run_of_def)
  ultimately show ?case by (metis list.size(3))
next
  case (Suc n)
  from Suc.prems obtain s1 r1 where
    step: "spin_step cfg stats rng = Inr (s1, r1)"
    and more: "run_spins cfg n s1 r1 = Inr (final, rng')"
    by (auto split: sum.splits)
  from step obtain d rng0 where rng: "rng = d # rng0"
    by (cases rng) (auto simp: spin_step_def Let_def)
  from spin_step_sound[OF step[unfolded rng]] obtain ds where
    well: "spins_well cfg d" and ds: "rng0 = ds @ r1"
    and casc: "cascade_of cfg (trigger_award cfg (drawn_grid cfg d)) ds"
    by blast
  from Suc.IH[OF more] obtain segs where
    segs: "length segs = n" "r1 = draws_of segs @ rng'" "run_of cfg segs"
    by blast
  have "length ((d, ds) # segs) = Suc n" using segs(1) by simp
  moreover have "rng = draws_of ((d, ds) # segs) @ rng'"
    using rng ds segs(2) by (simp add: draws_of_def)
  moreover have "run_of cfg ((d, ds) # segs)"
    using well casc segs(3) by (simp add: run_of_def)
  ultimately show ?case by blast
qed

lemma executed_split:
  assumes "run_of cfg segs"
  shows "executed segs = awarded cfg segs + retriggered cfg segs"
  using assms
proof (induction segs)
  case Nil
  then show ?case by (simp add: executed_def awarded_def retriggered_def)
next
  case (Cons seg segs)
  obtain d ds where seg: "seg = (d, ds)" by (cases seg)
  from Cons.prems seg have
    len: "length ds = trigger_award cfg (drawn_grid cfg d) + retriggered_spins cfg ds"
    and rest: "run_of cfg segs"
    by (simp_all add: run_of_def cascade_of_def)
  from Cons.IH[OF rest] len show ?case
    by (simp add: executed_def awarded_def retriggered_def seg)
qed

text \<open>
  Claim C10. Every completed run is a sequence of segments, and over such a sequence
  \<^verbatim>\<open>free_spins_played\<close> grows by the awards of the base spins only, while the number of
  free spins executed is that sum plus the spins added by retriggers; whenever a
  retrigger added spins, the counter is strictly below the number of free spins
  executed.
\<close>

theorem free_spins_played_counts_initial_awards:
  "(run_of cfg segs \<longrightarrow>
      (\<exists>stats'. run_spins cfg (length segs) stats (draws_of segs @ rest) = Inr (stats', rest)
         \<and> free_spins_played stats' = free_spins_played stats + awarded cfg segs
         \<and> executed segs = awarded cfg segs + retriggered cfg segs
         \<and> (0 < retriggered cfg segs \<longrightarrow>
               free_spins_played stats' < free_spins_played stats + executed segs)))
   \<and> (run_spins cfg num_spins stats rng = Inr (final, rng') \<longrightarrow>
        (\<exists>segs. length segs = num_spins \<and> rng = draws_of segs @ rng' \<and> run_of cfg segs))"
proof (intro conjI impI)
  assume run: "run_of cfg segs"
  from run_complete[OF run, of stats rest] obtain stats' where
    s: "run_spins cfg (length segs) stats (draws_of segs @ rest) = Inr (stats', rest)"
       "free_spins_played stats' = free_spins_played stats + awarded cfg segs"
    by blast
  have e: "executed segs = awarded cfg segs + retriggered cfg segs"
    using executed_split[OF run] .
  have imp: "0 < retriggered cfg segs \<longrightarrow>
          free_spins_played stats' < free_spins_played stats + executed segs"
    using s(2) e by simp
  show "\<exists>stats'. run_spins cfg (length segs) stats (draws_of segs @ rest) = Inr (stats', rest)
         \<and> free_spins_played stats' = free_spins_played stats + awarded cfg segs
         \<and> executed segs = awarded cfg segs + retriggered cfg segs
         \<and> (0 < retriggered cfg segs \<longrightarrow>
               free_spins_played stats' < free_spins_played stats + executed segs)"
  proof (intro exI[of _ stats'] conjI)
    show "run_spins cfg (length segs) stats (draws_of segs @ rest) = Inr (stats', rest)"
      by (rule s(1))
    show "free_spins_played stats' = free_spins_played stats + awarded cfg segs"
      by (rule s(2))
    show "executed segs = awarded cfg segs + retriggered cfg segs" by (rule e)
    show "0 < retriggered cfg segs \<longrightarrow>
               free_spins_played stats' < free_spins_played stats + executed segs"
      by (rule imp)
  qed
next
  assume "run_spins cfg num_spins stats rng = Inr (final, rng')"
  then show "\<exists>segs. length segs = num_spins \<and> rng = draws_of segs @ rng' \<and> run_of cfg segs"
    by (rule run_sound)
qed

theorem free_spins_played_counts_initial_awards_witness:
  "run_of mini_config [(all_scatter, [all_scatter, all_a])]
   \<and> 0 < retriggered mini_config [(all_scatter, [all_scatter, all_a])]
   \<and> executed [(all_scatter, [all_scatter, all_a])] = 2
   \<and> (\<exists>stats'. run_spins mini_config 1 new_stats [all_scatter, all_scatter, all_a] = Inr (stats', [])
         \<and> free_spins_played stats' = 1
         \<and> free_spins_played stats' < executed [(all_scatter, [all_scatter, all_a])])"
proof -
  let ?segs = "[(all_scatter, [all_scatter, all_a])]"
  have run: "run_of mini_config ?segs" by code_simp
  have re: "retriggered mini_config ?segs = 1" by code_simp
  have aw: "awarded mini_config ?segs = 1" by code_simp
  have ex: "executed ?segs = 2" by code_simp
  have dr: "draws_of ?segs @ [] = [all_scatter, all_scatter, all_a]"
    by (simp add: draws_of_def)
  from free_spins_played_counts_initial_awards [of mini_config ?segs new_stats "[]"] run
  obtain stats' where
    s: "run_spins mini_config (length ?segs) new_stats (draws_of ?segs @ []) = Inr (stats', [])"
       "free_spins_played stats' = free_spins_played new_stats + awarded mini_config ?segs"
       "0 < retriggered mini_config ?segs \<longrightarrow>
          free_spins_played stats' < free_spins_played new_stats + executed ?segs"
    by blast
  have "run_spins mini_config 1 new_stats [all_scatter, all_scatter, all_a] = Inr (stats', [])"
    using s(1) unfolding dr by simp
  moreover have "free_spins_played stats' = 1" using s(2) aw by (simp add: new_stats_def)
  moreover have "free_spins_played stats' < executed ?segs"
    using s(3) re by (simp add: new_stats_def)
  ultimately show ?thesis using run re ex by auto
qed

section \<open>The optimizer's win check against the evaluator\<close>























end
